theory Spec2Isabelle
  imports Main "HOL-Library.Word"
begin

section \<open>Data model\<close>

text \<open>
  The tunnel is written in Go. Its chain code (\<open>sshCleanup\<close>, \<open>newClient\<close>, \<open>connectHop\<close>,
  \<open>clientAlive\<close>) and its manager and forwarding code (\<open>splitSingleHost\<close>, \<open>connect\<close>,
  \<open>reconnect\<close>, \<open>scheduleReconnect\<close>, \<open>forward\<close>) are embedded as state-passing functions.

  An \<open>error\<close> value is identified with the message its \<open>Error()\<close> method prints, an
  \<open>*ssh.Client\<close> with a number naming the object; \<open>nil\<close> is \<open>None\<close>.
\<close>

type_synonym addr = string
type_synonym err = string
type_synonym sshClient = nat

text \<open>\<open>ssh.ClientConfig\<close>: the fields the code reads or sets apart from the key material.\<close>

record ClientConfig =
  User :: string
  Timeout :: nat

text \<open>\<open>type sshCleanup struct { clients []*ssh.Client }\<close>\<close>

record sshCleanup =
  clients :: "sshClient list"

text \<open>
  Everything the code does to the outside world is recorded as an event, in the order it
  happens. The constructors name the call sites: \<open>NetDialTimeout\<close> and \<open>HopDial\<close> are the two
  dials of \<open>connectHop\<close>, \<open>NewClientConn\<close> its handshake, \<open>DestDial\<close> is \<open>client.Dial\<close> in
  \<open>forward\<close>, \<open>SendRequest\<close> the keepalive probe, \<open>ClientClose\<close> a \<open>client.Close()\<close>,
  \<open>ConnClose\<close> the deferred \<open>conn.Close()\<close> of \<open>forward\<close>, \<open>Log\<close> a \<open>log.Printf\<close> line
  (without the time stamp), \<open>GoReconnect\<close> and \<open>GoScheduleReconnect\<close> the two \<open>go\<close> statements,
  and \<open>CopyStreams\<close> the two \<open>io.Copy\<close> goroutines together with the wait for both.
\<close>

datatype event =
    Log string
  | NetDialTimeout addr nat
  | HopDial sshClient addr
  | NewClientConn addr string
  | SendRequest sshClient
  | ClientClose sshClient
  | DestDial sshClient addr
  | GoReconnect "addr list"
  | GoScheduleReconnect "addr list"
  | CopyStreams sshClient
  | ConnClose

text \<open>A call of \<open>client.Close()\<close> returns an error or \<open>nil\<close>, or panics.\<close>

datatype closeResult = CloseReturns "err option" | ClosePanics

text \<open>
  The network and the ssh library are a parameter: each call is answered from the events
  so far, so the same call may succeed at one time and fail at another. \<open>None\<close> is a
  \<open>nil\<close> error.
\<close>

record network =
  net_DialTimeout :: "event list \<Rightarrow> addr \<Rightarrow> nat \<Rightarrow> err option"
  client_Dial :: "event list \<Rightarrow> sshClient \<Rightarrow> addr \<Rightarrow> err option"
  ssh_NewClientConn :: "event list \<Rightarrow> addr \<Rightarrow> ClientConfig \<Rightarrow> err option"
  conn_SendRequest :: "event list \<Rightarrow> sshClient \<Rightarrow> err option"
  client_Close :: "event list \<Rightarrow> sshClient \<Rightarrow> closeResult"

text \<open>
  The process state: the events so far, the name of the next \<open>*ssh.Client\<close> that
  \<open>ssh.NewClient\<close> allocates, and the package variables \<open>client\<close>, \<open>clientCloser\<close> and
  \<open>counter\<close>. The functions run one after another; \<open>clientMutex\<close> has no effect then and
  is left out.
\<close>

record world =
  trace :: "event list"
  fresh :: sshClient
  client :: "sshClient option"
  clientCloser :: "sshCleanup option"
  counter :: "64 word"

datatype 'a outcome = Returns 'a | Panics

datatype session = Dropped | Forwarded sshClient | Crashed

definition emit :: "event \<Rightarrow> world \<Rightarrow> world" where
  "emit ev s = s\<lparr>trace := trace s @ [ev]\<rparr>"

section \<open>Strings\<close>

text \<open>\<open>strings.Contains(s, substr)\<close>\<close>

fun strings_Contains :: "string \<Rightarrow> string \<Rightarrow> bool" where
  "strings_Contains [] substr = (substr = [])"
| "strings_Contains (c # s) substr =
     (take (length substr) (c # s) = substr \<or> strings_Contains s substr)"

text \<open>
  \<open>splitSingleHost\<close>: \<open>strings.ContainsRune(host, '@')\<close> is membership of the byte,
  \<open>strings.SplitN(host, "@", 2)\<close> cuts at the first \<open>@\<close>.
\<close>

definition splitSingleHost :: "string \<Rightarrow> err + (string \<times> string)" where
  "splitSingleHost host =
     (if CHR ''@'' \<notin> set host then Inl ''host does not contain a username''
      else
        let user = takeWhile (\<lambda>c. c \<noteq> CHR ''@'') host;
            addr = tl (dropWhile (\<lambda>c. c \<noteq> CHR ''@'') host)
        in Inr (user, if \<not> strings_Contains addr '':'' then addr @ '':22'' else addr))"

section \<open>The hop chain\<close>

text \<open>
  \<open>sshCleanup.Close\<close>: the loop defers one closure per client, so the closures run in
  reverse order when the function returns. A closure whose \<open>client.Close()\<close> panics leaves
  \<open>err\<close> as it is, the remaining closures still run, and the \<open>recover()\<close> deferred first
  (so run last) ends the panic: the function returns \<open>err\<close>.
  \<open>closeDeferred\<close> runs the closures in the order given.
\<close>

fun closeDeferred :: "network \<Rightarrow> sshClient list \<Rightarrow> err option \<Rightarrow> world \<Rightarrow> err option \<times> world" where
  "closeDeferred net [] er s = (er, s)"
| "closeDeferred net (cl # rest) er s =
     (let r = client_Close net (trace s) cl;
          s1 = emit (ClientClose cl) s
      in case r of
           ClosePanics \<Rightarrow> closeDeferred net rest er s1
         | CloseReturns e \<Rightarrow> closeDeferred net rest (if er = None then e else er) s1)"

definition sshCleanup_Close :: "network \<Rightarrow> sshCleanup \<Rightarrow> world \<Rightarrow> err option \<times> world" where
  "sshCleanup_Close net c s = closeDeferred net (rev (clients c)) None s"

text \<open>\<open>connectHop\<close>: dial (directly, or through the proxy), then the handshake.\<close>

definition connectHop ::
  "network \<Rightarrow> sshClient option \<Rightarrow> addr \<Rightarrow> ClientConfig \<Rightarrow> world \<Rightarrow> (err + sshClient) \<times> world" where
  "connectHop net proxy a config s =
     (let (dialed, s1) =
            (case proxy of
               None \<Rightarrow> (net_DialTimeout net (trace s) a (Timeout config),
                         emit (NetDialTimeout a (Timeout config)) s)
             | Some p \<Rightarrow> (client_Dial net (trace s) p a, emit (HopDial p a) s))
      in case dialed of
           Some e \<Rightarrow> (Inl e, s1)
         | None \<Rightarrow>
             (let shaken = ssh_NewClientConn net (trace s1) a config;
                  s2 = emit (NewClientConn a (User config)) s1
              in case shaken of
                   Some e \<Rightarrow> (Inl e, s2)
                 | None \<Rightarrow> (Inr (fresh s2), s2\<lparr>fresh := Suc (fresh s2)\<rparr>)))"

text \<open>
  The loop of \<open>newClient\<close> over the hops left, with the variables \<open>client\<close> and \<open>c\<close> it
  carries. \<open>newClient\<close> has checked that \<open>addrs\<close> and \<open>configs\<close> have the same length, so
  \<open>addr\<close> and \<open>configs[i]\<close> are the two halves of a pair of \<open>zip addrs configs\<close>.
\<close>

fun hopLoop ::
  "network \<Rightarrow> (addr \<times> ClientConfig) list \<Rightarrow> sshClient option \<Rightarrow> sshCleanup \<Rightarrow> world
     \<Rightarrow> (err + (sshClient option \<times> sshCleanup)) \<times> world" where
  "hopLoop net [] proxy c s = (Inr (proxy, c), s)"
| "hopLoop net ((a, config) # rest) proxy c s =
     (let s1 = emit (Log (''Establishing new connection to '' @ a)) s;
          (r, s2) = connectHop net proxy a config s1
      in case r of
           Inl e \<Rightarrow>
             (let s3 = emit (Log (''Failed to connect to '' @ a @ '': '' @ e)) s2;
                  (ignored, s4) = sshCleanup_Close net c s3
              in (Inl e, s4))
         | Inr cl \<Rightarrow> hopLoop net rest (Some cl) (c\<lparr>clients := clients c @ [cl]\<rparr>) s2)"

definition newClient ::
  "network \<Rightarrow> addr list \<Rightarrow> ClientConfig list \<Rightarrow> world
     \<Rightarrow> (err + (sshClient option \<times> sshCleanup)) \<times> world" where
  "newClient net addrs configs s =
     (if length addrs \<noteq> length configs then (Inl ''newClient: len(config) != len(addrs)'', s)
      else if length addrs = 0 then (Inl ''no addresses provided'', s)
      else
        (case hopLoop net (zip addrs configs) None \<lparr>clients = []\<rparr> s of
           (Inl e, s1) \<Rightarrow> (Inl e, s1)
         | (Inr built, s1) \<Rightarrow>
             (Inr built,
              emit (Log (''Connected to final hop '' @ addrs ! (length addrs - 1))) s1)))"

text \<open>
  \<open>clientAlive\<close>. With a client that does not answer and a \<open>nil\<close> \<open>cleanup\<close>, the call
  \<open>cleanup.Close()\<close> panics.
\<close>

definition clientAlive ::
  "network \<Rightarrow> sshClient option \<Rightarrow> sshCleanup option \<Rightarrow> world \<Rightarrow> bool outcome \<times> world" where
  "clientAlive net cl cleanup s =
     (case cl of
        None \<Rightarrow> (Returns False, s)
      | Some p \<Rightarrow>
          (let probe = conn_SendRequest net (trace s) p;
               s1 = emit (SendRequest p) s
           in case probe of
                None \<Rightarrow> (Returns True, s1)
              | Some e \<Rightarrow>
                  (let s2 = emit (Log ''Client connection is not responding, closing'') s1
                   in case cleanup of
                        None \<Rightarrow> (Panics, s2)
                      | Some c \<Rightarrow>
                          (case sshCleanup_Close net c s2 of
                             (None, s3) \<Rightarrow> (Returns False, s3)
                           | (Some ce, s3) \<Rightarrow>
                               (Returns False,
                                emit (Log (''Failed to close client connection: '' @ ce)) s3)))))"

section \<open>The chain manager\<close>

definition connect ::
  "network \<Rightarrow> addr list \<Rightarrow> ClientConfig list \<Rightarrow> world
     \<Rightarrow> (err + sshClient option) outcome \<times> world" where
  "connect net addrs configs s =
     (case clientAlive net (client s) (clientCloser s) s of
        (Panics, s1) \<Rightarrow> (Panics, s1)
      | (Returns True, s1) \<Rightarrow> (Returns (Inr (client s1)), s1)
      | (Returns False, s1) \<Rightarrow>
          (case newClient net addrs configs s1 of
             (Inl e, s2) \<Rightarrow> (Returns (Inl e), s2\<lparr>client := None, clientCloser := None\<rparr>)
           | (Inr (cl, c), s2) \<Rightarrow>
               (Returns (Inr cl), s2\<lparr>client := cl, clientCloser := Some c\<rparr>)))"

definition reconnect ::
  "network \<Rightarrow> addr list \<Rightarrow> ClientConfig list \<Rightarrow> world \<Rightarrow> (err + sshClient option) \<times> world" where
  "reconnect net addrs configs s =
     (case newClient net addrs configs s of
        (Inl e, s1) \<Rightarrow> (Inl e, s1)
      | (Inr (nClient, nClientCloser), s1) \<Rightarrow>
          (Inr nClient, s1\<lparr>client := nClient, clientCloser := Some nClientCloser\<rparr>))"

definition counterCycle :: "64 word" where
  "counterCycle = 1000"

text \<open>
  \<open>scheduleReconnect\<close>: \<open>atomic.AddUint64\<close> returns the new value; \<open>go reconnect(...)\<close>
  starts the rebuild without waiting for it.
\<close>

definition scheduleReconnect :: "addr list \<Rightarrow> ClientConfig list \<Rightarrow> world \<Rightarrow> world" where
  "scheduleReconnect addrs configs s =
     (let s1 = s\<lparr>counter := counter s + 1\<rparr>
      in if counter s1 mod counterCycle \<noteq> 0 then s1
         else emit (GoReconnect addrs) (emit (Log ''scheduling reconnect'') s1))"

section \<open>Forwarding\<close>

text \<open>
  The tail of \<open>forward\<close> once \<open>dest\<close> is open: the scheduler is started, the two copies run
  and are waited for, and the deferred \<open>conn.Close()\<close> runs.
\<close>

definition pump :: "addr list \<Rightarrow> sshClient \<Rightarrow> world \<Rightarrow> session \<times> world" where
  "pump addrs p s =
     (Forwarded p, emit ConnClose (emit (CopyStreams p) (emit (GoScheduleReconnect addrs) s)))"

text \<open>
  \<open>client.Dial("tcp", remoteAddr)\<close> of \<open>forward\<close> on a client that is not \<open>nil\<close>; on a
  \<open>nil\<close> client the call panics, which \<open>forward\<close> below writes out.
\<close>

definition dialDest ::
  "network \<Rightarrow> sshClient \<Rightarrow> addr \<Rightarrow> world \<Rightarrow> err option \<times> world" where
  "dialDest net p remoteAddr s =
     (client_Dial net (trace s) p remoteAddr, emit (DestDial p remoteAddr) s)"

definition forward ::
  "network \<Rightarrow> addr \<Rightarrow> addr list \<Rightarrow> ClientConfig list \<Rightarrow> world \<Rightarrow> session \<times> world" where
  "forward net remoteAddr addrs configs s =
     (case connect net addrs configs s of
        (Panics, s1) \<Rightarrow> (Crashed, emit ConnClose s1)
      | (Returns (Inl e), s1) \<Rightarrow> (Dropped, emit ConnClose s1)
      | (Returns (Inr None), s1) \<Rightarrow> (Crashed, emit ConnClose s1)
      | (Returns (Inr (Some p)), s1) \<Rightarrow>
          (case dialDest net p remoteAddr s1 of
             (None, s2) \<Rightarrow> pump addrs p s2
           | (Some e, s2) \<Rightarrow>
               (let s3 = emit (Log (''Failed to dial '' @ remoteAddr
                                      @ '', attempting to reconnect: '' @ e)) s2
                in case reconnect net addrs configs s3 of
                     (Inl e2, s4) \<Rightarrow> (Dropped, emit ConnClose s4)
                   | (Inr None, s4) \<Rightarrow> (Crashed, emit ConnClose s4)
                   | (Inr (Some q), s4) \<Rightarrow>
                       (case dialDest net q remoteAddr s4 of
                          (None, s5) \<Rightarrow> pump addrs q s5
                        | (Some e3, s5) \<Rightarrow>
                            (Dropped,
                             emit ConnClose
                               (emit (Log (''Failed to dial '' @ remoteAddr
                                             @ '' (final): '' @ e3)) s5))))))"

section \<open>Reading a trace\<close>

text \<open>The clients closed and the addresses of the hops dialled, in the order of the events.\<close>

fun closes :: "event list \<Rightarrow> sshClient list" where
  "closes [] = []"
| "closes (ClientClose cl # tr) = cl # closes tr"
| "closes (ev # tr) = closes tr"

fun attempts :: "event list \<Rightarrow> addr list" where
  "attempts [] = []"
| "attempts (NetDialTimeout a t # tr) = a # attempts tr"
| "attempts (HopDial p a # tr) = a # attempts tr"
| "attempts (ev # tr) = attempts tr"

text \<open>
  What the library answers to the calls of \<open>client.Close()\<close> on the clients \<open>cs\<close>, made in
  that order from the trace \<open>tr\<close> on, and the first error among such answers.
\<close>

fun closeAnswers :: "network \<Rightarrow> event list \<Rightarrow> sshClient list \<Rightarrow> closeResult list" where
  "closeAnswers net tr [] = []"
| "closeAnswers net tr (cl # rest) =
     client_Close net tr cl # closeAnswers net (tr @ [ClientClose cl]) rest"

fun firstError :: "closeResult list \<Rightarrow> err option" where
  "firstError [] = None"
| "firstError (CloseReturns (Some e) # rs) = Some e"
| "firstError (r # rs) = firstError rs"

text \<open>
  The events that building, probing and closing a chain can produce; the clients through
  which \<open>forward\<close> dialled the destination; and whether some log line of a trace
  contains a given error message.
\<close>

fun chainEvent :: "event \<Rightarrow> bool" where
  "chainEvent (DestDial p a) = False"
| "chainEvent ConnClose = False"
| "chainEvent (GoReconnect addrs) = False"
| "chainEvent (GoScheduleReconnect addrs) = False"
| "chainEvent (CopyStreams p) = False"
| "chainEvent ev = True"

fun destDials :: "event list \<Rightarrow> sshClient list" where
  "destDials [] = []"
| "destDials (DestDial p a # tr) = p # destDials tr"
| "destDials (ev # tr) = destDials tr"


text \<open>The trace of \<open>s'\<close> is the trace of \<open>s\<close> followed by events of the chain only.\<close>

definition grows :: "world \<Rightarrow> world \<Rightarrow> bool" where
  "grows s s' = (\<exists>evs. trace s' = trace s @ evs \<and> list_all chainEvent evs)"

section \<open>Sequential runs of the scheduler\<close>

text \<open>
  The number of \<open>go reconnect(...)\<close> statements in a trace, and \<open>n\<close> calls of
  \<open>scheduleReconnect\<close> one after another.
\<close>

fun rebuilds :: "event list \<Rightarrow> nat" where
  "rebuilds [] = 0"
| "rebuilds (GoReconnect addrs # tr) = Suc (rebuilds tr)"
| "rebuilds (ev # tr) = rebuilds tr"

primrec sessions :: "nat \<Rightarrow> addr list \<Rightarrow> ClientConfig list \<Rightarrow> world \<Rightarrow> world" where
  "sessions 0 addrs configs s = s"
| "sessions (Suc n) addrs configs s = scheduleReconnect addrs configs (sessions n addrs configs s)"

section \<open>Concrete runs\<close>

text \<open>The state of the process when it starts, and a hop configuration.\<close>

definition world0 :: world where
  "world0 = \<lparr>trace = [], fresh = 0, client = None, clientCloser = None, counter = 0\<rparr>"

definition key :: ClientConfig where
  "key = \<lparr>User = ''tunnel'', Timeout = 0\<rparr>"

text \<open>
  A network in which the host \<open>inner:22\<close> refuses connections and closing a client reports
  an error, and one in which every handshake ends early.
\<close>

definition netInnerDown :: network where
  "netInnerDown =
     \<lparr>net_DialTimeout = (\<lambda>tr a t. None),
      client_Dial = (\<lambda>tr p a. if a = ''inner:22'' then Some ''ssh: rejected: connect failed''
                                else None),
      ssh_NewClientConn = (\<lambda>tr a config. None),
      conn_SendRequest = (\<lambda>tr p. None),
      client_Close = (\<lambda>tr p. CloseReturns (Some ''close tcp: broken pipe''))\<rparr>"

definition netHandshakeEOF :: network where
  "netHandshakeEOF =
     \<lparr>net_DialTimeout = (\<lambda>tr a t. None),
      client_Dial = (\<lambda>tr p a. None),
      ssh_NewClientConn = (\<lambda>tr a config. Some ''ssh: handshake failed: EOF''),
      conn_SendRequest = (\<lambda>tr p. None),
      client_Close = (\<lambda>tr p. CloseReturns None)\<rparr>"

text \<open>
  A network in which nothing can be reached and the keepalive probe fails, and a state in
  which the shared chain is the one-hop chain of client \<open>0\<close>.
\<close>

definition netDown :: network where
  "netDown =
     \<lparr>net_DialTimeout = (\<lambda>tr a t. Some ''dial tcp: i/o timeout''),
      client_Dial = (\<lambda>tr p a. Some ''ssh: rejected: connect failed''),
      ssh_NewClientConn = (\<lambda>tr a config. None),
      conn_SendRequest = (\<lambda>tr p. Some ''EOF''),
      client_Close = (\<lambda>tr p. CloseReturns None)\<rparr>"

definition worldStale :: world where
  "worldStale = \<lparr>trace = [], fresh = 1, client = Some 0,
                  clientCloser = Some \<lparr>clients = [0]\<rparr>, counter = 0\<rparr>"

text \<open>
  Three networks for runs of \<open>forward\<close>: the destination \<open>db:5432\<close> refuses connections;
  the chain in use answers the probe but nothing can be dialled any more; and the chain
  in use (client \<open>0\<close>) answers the probe but opens no channel, while a new chain does.
\<close>

definition netDestDown :: network where
  "netDestDown =
     \<lparr>net_DialTimeout = (\<lambda>tr a t. None),
      client_Dial = (\<lambda>tr p a. if a = ''db:5432'' then Some ''ssh: rejected: connect failed''
                               else None),
      ssh_NewClientConn = (\<lambda>tr a config. None),
      conn_SendRequest = (\<lambda>tr p. None),
      client_Close = (\<lambda>tr p. CloseReturns None)\<rparr>"

definition netGateGone :: network where
  "netGateGone =
     \<lparr>net_DialTimeout = (\<lambda>tr a t. Some ''dial tcp: i/o timeout''),
      client_Dial = (\<lambda>tr p a. Some ''ssh: rejected: connect failed''),
      ssh_NewClientConn = (\<lambda>tr a config. None),
      conn_SendRequest = (\<lambda>tr p. None),
      client_Close = (\<lambda>tr p. CloseReturns None)\<rparr>"

definition netStaleChain :: network where
  "netStaleChain =
     \<lparr>net_DialTimeout = (\<lambda>tr a t. None),
      client_Dial = (\<lambda>tr p a. if p = 0 then Some ''EOF'' else None),
      ssh_NewClientConn = (\<lambda>tr a config. None),
      conn_SendRequest = (\<lambda>tr p. None),
      client_Close = (\<lambda>tr p. CloseReturns None)\<rparr>"

text \<open>A library in which closing client \<open>2\<close> panics and closing any other client fails.\<close>

definition netCloseMixed :: network where
  "netCloseMixed =
     \<lparr>net_DialTimeout = (\<lambda>tr a t. None),
      client_Dial = (\<lambda>tr p a. None),
      ssh_NewClientConn = (\<lambda>tr a config. None),
      conn_SendRequest = (\<lambda>tr p. None),
      client_Close = (\<lambda>tr p. if p = 2 then ClosePanics
                                else if p = 1 then CloseReturns (Some ''close 1: broken pipe'')
                                else CloseReturns (Some ''close 0: broken pipe''))\<rparr>"

section \<open>Events and the frame of each function\<close>

text \<open>The definitions that a concrete run unfolds.\<close>

lemmas run_defs = connect_def reconnect_def clientAlive_def newClient_def connectHop_def
  sshCleanup_Close_def emit_def Let_def

lemma trace_emit [simp]: "trace (emit ev s) = trace s @ [ev]"
  by (simp add: emit_def)

lemma frame_emit [simp]:
  "fresh (emit ev s) = fresh s" "client (emit ev s) = client s"
  "clientCloser (emit ev s) = clientCloser s" "counter (emit ev s) = counter s"
  by (simp_all add: emit_def)

lemma closes_append [simp]: "closes (xs @ ys) = closes xs @ closes ys"
  by (induction xs rule: closes.induct) simp_all

lemma attempts_append [simp]: "attempts (xs @ ys) = attempts xs @ attempts ys"
  by (induction xs rule: attempts.induct) simp_all

lemma closes_map_ClientClose [simp]: "closes (map ClientClose cs) = cs"
  by (induction cs) simp_all

lemma attempts_map_ClientClose [simp]: "attempts (map ClientClose cs) = []"
  by (induction cs) simp_all

subsection \<open>The aggregate closer\<close>

lemma closeDeferred_trace:
  "trace (snd (closeDeferred net cs er s)) = trace s @ map ClientClose cs"
  by (induction cs arbitrary: er s) (auto simp: Let_def split: closeResult.splits)

lemma closeDeferred_frame:
  "fresh (snd (closeDeferred net cs er s)) = fresh s"
  "client (snd (closeDeferred net cs er s)) = client s"
  "clientCloser (snd (closeDeferred net cs er s)) = clientCloser s"
  "counter (snd (closeDeferred net cs er s)) = counter s"
  by (induction cs arbitrary: er s; auto simp: Let_def split: closeResult.splits)+

lemma closeDeferred_result:
  "fst (closeDeferred net cs er s) =
     (case er of Some e \<Rightarrow> Some e | None \<Rightarrow> firstError (closeAnswers net (trace s) cs))"
proof (induction cs arbitrary: er s)
  case Nil
  then show ?case by (simp split: option.splits)
next
  case (Cons cl rest)
  show ?case
  proof (cases "client_Close net (trace s) cl")
    case ClosePanics
    then show ?thesis by (simp add: Cons.IH Let_def split: option.splits)
  next
    case (CloseReturns e)
    then show ?thesis by (cases e; cases er) (simp_all add: Cons.IH Let_def)
  qed
qed

lemma sshCleanup_Close_trace:
  "trace (snd (sshCleanup_Close net c s)) = trace s @ map ClientClose (rev (clients c))"
  by (simp add: sshCleanup_Close_def closeDeferred_trace)

lemma sshCleanup_Close_frame:
  "fresh (snd (sshCleanup_Close net c s)) = fresh s"
  "client (snd (sshCleanup_Close net c s)) = client s"
  "clientCloser (snd (sshCleanup_Close net c s)) = clientCloser s"
  "counter (snd (sshCleanup_Close net c s)) = counter s"
  by (simp_all add: sshCleanup_Close_def closeDeferred_frame)

text \<open>
  C10. \<open>sshCleanup.Close\<close> calls \<open>Close\<close> on every accumulated client, the client
  established last first, whatever the calls answer, and returns the first error that
  one of these calls returns in that order (\<open>nil\<close> when none returns an error); the
  errors of later calls are discarded.
\<close>

theorem Close_reverse_first_error:
  "trace (snd (sshCleanup_Close net c s)) = trace s @ map ClientClose (rev (clients c)) \<and>
   fst (sshCleanup_Close net c s) = firstError (closeAnswers net (trace s) (rev (clients c)))"
  by (simp add: sshCleanup_Close_def closeDeferred_trace closeDeferred_result)

theorem Close_reverse_first_error_witness:
  "trace (snd (sshCleanup_Close netCloseMixed \<lparr>clients = [0, 1, 2]\<rparr> world0))
     = [ClientClose 2, ClientClose 1, ClientClose 0]
   \<and> fst (sshCleanup_Close netCloseMixed \<lparr>clients = [0, 1, 2]\<rparr> world0)
     = Some ''close 1: broken pipe''"
  using Close_reverse_first_error [of netCloseMixed "\<lparr>clients = [0, 1, 2]\<rparr>" world0]
  by (simp add: netCloseMixed_def world0_def)

subsection \<open>One hop\<close>

lemma connectHop_frame:
  assumes "connectHop net proxy a config s = (r, s')"
  shows "client s' = client s" "clientCloser s' = clientCloser s" "counter s' = counter s"
  using assms
  by (auto simp: connectHop_def Let_def split: option.splits prod.splits)

lemma connectHop_Inl:
  assumes "connectHop net proxy a config s = (Inl e, s')"
  shows "fresh s' = fresh s" "closes (trace s') = closes (trace s)"
    "attempts (trace s') = attempts (trace s) @ [a]"
  using assms
  by (auto simp: connectHop_def Let_def split: option.splits prod.splits)

lemma connectHop_Inr:
  assumes "connectHop net proxy a config s = (Inr cl, s')"
  shows "cl = fresh s" "fresh s' = Suc (fresh s)" "closes (trace s') = closes (trace s)"
    "attempts (trace s') = attempts (trace s) @ [a]"
  using assms
  by (auto simp: connectHop_def Let_def split: option.splits prod.splits)

subsection \<open>The loop over the hops\<close>

lemma hopLoop_append:
  "hopLoop net (pre @ rest) proxy c s =
     (case hopLoop net pre proxy c s of
        (Inl e, s1) \<Rightarrow> (Inl e, s1)
      | (Inr (p, c1), s1) \<Rightarrow> hopLoop net rest p c1 s1)"
proof (induction pre arbitrary: proxy c s)
  case Nil
  then show ?case by simp
next
  case (Cons h pre)
  obtain a config where h: "h = (a, config)" by (cases h)
  show ?case
    by (simp add: h Cons.IH Let_def split: prod.splits sum.splits)
qed

lemma hopLoop_Inr:
  "hopLoop net hops proxy c s = (Inr (p, c1), s1) \<Longrightarrow>
     clients c1 = clients c @ [fresh s ..< fresh s + length hops]
     \<and> fresh s1 = fresh s + length hops
     \<and> closes (trace s1) = closes (trace s)
     \<and> attempts (trace s1) = attempts (trace s) @ map fst hops
     \<and> p = (if hops = [] then proxy else Some (fresh s + length hops - 1))"
proof (induction hops arbitrary: proxy c s)
  case Nil
  then show ?case by simp
next
  case (Cons h hops)
  obtain a config where h: "h = (a, config)" by (cases h)
  let ?s0 = "emit (Log (''Establishing new connection to '' @ a)) s"
  obtain r s2 where ch: "connectHop net proxy a config ?s0 = (r, s2)" by fastforce
  from Cons.prems ch h obtain cl where r: "r = Inr cl"
    and rest: "hopLoop net hops (Some cl) (c\<lparr>clients := clients c @ [cl]\<rparr>) s2 = (Inr (p, c1), s1)"
    by (cases r) (auto simp: Let_def split: prod.splits)
  note hop = connectHop_Inr [OF ch [unfolded r]]
  note ih = Cons.IH [OF rest]
  have upt: "[fresh s ..< fresh s + length (h # hops)]
               = fresh s # [fresh s2 ..< fresh s2 + length hops]"
    using hop(2) by (simp add: upt_conv_Cons del: upt_Suc)
  have "clients c1 = clients c @ [fresh s ..< fresh s + length (h # hops)]"
    unfolding upt using ih hop(1) by simp
  moreover have "fresh s1 = fresh s + length (h # hops)"
    using ih hop by simp
  moreover have "closes (trace s1) = closes (trace s)"
    using ih hop by simp
  moreover have "attempts (trace s1) = attempts (trace s) @ map fst (h # hops)"
    using ih hop h by simp
  moreover have "p = (if h # hops = [] then proxy else Some (fresh s + length (h # hops) - 1))"
    using ih hop by (cases hops) auto
  ultimately show ?case by blast
qed

lemma hopLoop_frame:
  "hopLoop net hops proxy c s = (r, s') \<Longrightarrow>
     client s' = client s \<and> clientCloser s' = clientCloser s \<and> counter s' = counter s"
proof (induction hops arbitrary: proxy c s)
  case Nil
  then show ?case by auto
next
  case (Cons h hops)
  obtain a config where h: "h = (a, config)" by (cases h)
  let ?s0 = "emit (Log (''Establishing new connection to '' @ a)) s"
  obtain r1 s2 where ch: "connectHop net proxy a config ?s0 = (r1, s2)" by fastforce
  note fr = connectHop_frame [OF ch]
  show ?case
  proof (cases r1)
    case (Inl e)
    with Cons.prems ch h
    have "s' = snd (sshCleanup_Close net c
                      (emit (Log (''Failed to connect to '' @ a @ '': '' @ e)) s2))"
      by (auto simp: Let_def split: prod.splits)
    then show ?thesis using fr by (simp add: sshCleanup_Close_frame)
  next
    case (Inr cl)
    with Cons.prems ch h
    have "hopLoop net hops (Some cl) (c\<lparr>clients := clients c @ [cl]\<rparr>) s2 = (r, s')"
      by (simp add: Let_def)
    from Cons.IH [OF this] fr show ?thesis by simp
  qed
qed

lemma hopLoop_fails:
  assumes pre: "hopLoop net pre p0 c0 s = (Inr (proxy, c), s1)"
    and hop: "connectHop net proxy a config
                (emit (Log (''Establishing new connection to '' @ a)) s1) = (Inl e, s2)"
  shows "hopLoop net (pre @ (a, config) # post) p0 c0 s =
           (Inl e, snd (sshCleanup_Close net c
                          (emit (Log (''Failed to connect to '' @ a @ '': '' @ e)) s2)))"
  using pre hop by (simp add: hopLoop_append Let_def split: prod.splits)

subsection \<open>Building a chain\<close>

lemma newClient_frame:
  "newClient net addrs configs s = (r, s') \<Longrightarrow>
     client s' = client s \<and> clientCloser s' = clientCloser s \<and> counter s' = counter s"
  by (auto simp: newClient_def split: if_splits prod.splits sum.splits dest: hopLoop_frame)

text \<open>
  C8. \<open>newClient\<close> returns a configuration error and has done nothing else (no log line,
  no dial, the state is the one it was called in) whenever the list of addresses is empty
  or the number of configurations differs from the number of addresses.
\<close>

theorem newClient_config_error:
  "length addrs \<noteq> length configs \<or> addrs = [] \<Longrightarrow>
     newClient net addrs configs s =
       (Inl (if length addrs \<noteq> length configs then ''newClient: len(config) != len(addrs)''
             else ''no addresses provided''), s)"
  by (auto simp: newClient_def)

theorem newClient_config_error_witness:
  "newClient netInnerDown [''gate:22'', ''inner:22''] [key] world0
     = (Inl ''newClient: len(config) != len(addrs)'', world0)
   \<and> newClient netInnerDown [] [] world0 = (Inl ''no addresses provided'', world0)"
  using newClient_config_error [of "[''gate:22'', ''inner:22'']" "[key]" netInnerDown world0]
    newClient_config_error [of "[]" "[]" netInnerDown world0]
  by simp

text \<open>
  C1, as the code has it. Let the hops before hop \<open>k\<close> be established (the loop run on
  them alone succeeds, with the clients \<open>c\<close>) and let the dial or the handshake of hop
  \<open>k\<close>, at address \<open>a\<close>, return the error \<open>e\<close>. Then \<open>newClient\<close> returns \<open>e\<close> itself; the
  clients in \<open>c\<close> are the \<open>k - 1\<close> clients allocated since the call, so hop \<open>k\<close> is not among
  them; after the failure the only events are the line
  \<open>Failed to connect to a: e\<close> and one \<open>Close\<close> for each client of \<open>c\<close>, last one first,
  whatever the closes answer; and the addresses dialled are those of hops \<open>1..k\<close>, so
  no hop after \<open>k\<close> is tried. \<open>newClient\<close> adds no tag of its own to the error: it
  writes the address of the failing hop in the log line and returns the error of the
  dial or the handshake as it got it.
\<close>

theorem newClient_fails_at_hop:
  assumes pre: "hopLoop net pre None \<lparr>clients = []\<rparr> s = (Inr (proxy, c), s1)"
    and hop: "connectHop net proxy a config
                (emit (Log (''Establishing new connection to '' @ a)) s1) = (Inl e, s2)"
  shows "\<exists>s'. newClient net (map fst pre @ a # map fst post) (map snd pre @ config # map snd post) s
                 = (Inl e, s')
           \<and> clients c = [fresh s ..< fresh s + length pre]
           \<and> fresh s' = fresh s + length pre
           \<and> closes (trace s') = closes (trace s) @ rev (clients c)
           \<and> attempts (trace s') = attempts (trace s) @ map fst pre @ [a]
           \<and> trace s' = trace s2 @ Log (''Failed to connect to '' @ a @ '': '' @ e)
                                    # map ClientClose (rev (clients c))"
proof -
  let ?hops = "pre @ (a, config) # post"
  let ?s3 = "emit (Log (''Failed to connect to '' @ a @ '': '' @ e)) s2"
  let ?s' = "snd (sshCleanup_Close net c ?s3)"
  have z: "zip (map fst pre @ a # map fst post) (map snd pre @ config # map snd post) = ?hops"
    by (simp add: zip_map_fst_snd)
  have run: "newClient net (map fst pre @ a # map fst post) (map snd pre @ config # map snd post) s
               = (Inl e, ?s')"
    by (simp add: newClient_def z hopLoop_fails [OF pre hop])
  note p = hopLoop_Inr [OF pre]
  note h = connectHop_Inl [OF hop]
  have "clients c = [fresh s ..< fresh s + length pre]" using p by simp
  moreover have "fresh ?s' = fresh s + length pre"
    using p h by (simp add: sshCleanup_Close_frame)
  moreover have "closes (trace ?s') = closes (trace s) @ rev (clients c)"
    using p h by (simp add: sshCleanup_Close_trace)
  moreover have "attempts (trace ?s') = attempts (trace s) @ map fst pre @ [a]"
    using p h by (simp add: sshCleanup_Close_trace)
  moreover have "trace ?s' = trace s2 @ Log (''Failed to connect to '' @ a @ '': '' @ e)
                                    # map ClientClose (rev (clients c))"
    by (simp add: sshCleanup_Close_trace)
  ultimately show ?thesis using run by blast
qed

theorem newClient_fails_at_hop_witness:
  "fst (newClient netInnerDown [''gate:22'', ''inner:22'', ''deep:22''] [key, key, key] world0)
     = Inl ''ssh: rejected: connect failed''
   \<and> closes (trace (snd (newClient netInnerDown [''gate:22'', ''inner:22'', ''deep:22'']
                              [key, key, key] world0))) = [0]
   \<and> attempts (trace (snd (newClient netInnerDown [''gate:22'', ''inner:22'', ''deep:22'']
                                [key, key, key] world0))) = [''gate:22'', ''inner:22'']"
proof -
  let ?pre = "hopLoop netInnerDown [(''gate:22'', key)] None \<lparr>clients = []\<rparr> world0"
  let ?hop = "connectHop netInnerDown (Some 0) ''inner:22'' key
                (emit (Log (''Establishing new connection to '' @ ''inner:22'')) (snd ?pre))"
  have "fst ?pre = Inr (Some 0, \<lparr>clients = [0]\<rparr>)"
    by (simp add: connectHop_def emit_def netInnerDown_def world0_def Let_def)
  then have pre: "?pre = (Inr (Some 0, \<lparr>clients = [0]\<rparr>), snd ?pre)"
    by (metis prod.collapse)
  have "fst ?hop = Inl ''ssh: rejected: connect failed''"
    by (simp add: connectHop_def emit_def netInnerDown_def Let_def)
  then have hop: "?hop = (Inl ''ssh: rejected: connect failed'', snd ?hop)"
    by (metis prod.collapse)
  from newClient_fails_at_hop [OF pre hop, of "[(''deep:22'', key)]"]
  show ?thesis by (auto simp: world0_def)
qed

text \<open>
  C1 as written has \<open>newClient\<close> tag the returned error with the address of the failing
  hop. When the handshake at \<open>gate:22\<close> ends early with an error that does not name the
  address, \<open>newClient\<close> returns that error as it is, so the error returned does not
  name the address either.
\<close>

theorem newClient_error_tag_counterexample:
  "ssh_NewClientConn netHandshakeEOF [Log ''Establishing new connection to gate:22'',
       NetDialTimeout ''gate:22'' 0] ''gate:22'' key = Some ''ssh: handshake failed: EOF''
   \<and> fst (newClient netHandshakeEOF [''gate:22''] [key] world0) = Inl ''ssh: handshake failed: EOF''
   \<and> \<not> strings_Contains ''ssh: handshake failed: EOF'' ''gate:22''"
  by (simp add: newClient_def connectHop_def emit_def netHandshakeEOF_def world0_def key_def
      Let_def sshCleanup_Close_def)

lemma newClient_Inr:
  assumes "newClient net addrs configs s = (Inr (cl, c), s')"
  shows "cl = Some (fresh s + length addrs - 1)"
    and "clients c = [fresh s ..< fresh s + length addrs]"
    and "closes (trace s') = closes (trace s)"
    and "attempts (trace s') = attempts (trace s) @ addrs"
proof -
  from assms have len: "length addrs = length configs" and ne: "addrs \<noteq> []"
    by (auto simp: newClient_def split: if_splits)
  from assms len ne obtain s1 where
    loop: "hopLoop net (zip addrs configs) None \<lparr>clients = []\<rparr> s = (Inr (cl, c), s1)"
    and s': "s' = emit (Log (''Connected to final hop '' @ addrs ! (length addrs - 1))) s1"
    by (auto simp: newClient_def split: if_splits prod.splits sum.splits)
  note l = hopLoop_Inr [OF loop]
  from ne len have z: "zip addrs configs \<noteq> []" by (cases addrs; cases configs) auto
  show "cl = Some (fresh s + length addrs - 1)" using l z len by simp
  show "clients c = [fresh s ..< fresh s + length addrs]" using l len by simp
  show "closes (trace s') = closes (trace s)" using l s' by simp
  show "attempts (trace s') = attempts (trace s) @ addrs" using l s' len by simp
qed

section \<open>Properties of the chain manager\<close>

text \<open>
  C3. \<open>reconnect\<close> builds first. When the build succeeds it stores the new client and
  the new closer in \<open>client\<close> and \<open>clientCloser\<close> and returns the new client, which is not
  \<open>nil\<close>; when the build fails it returns the error of the build. In both cases the
  build itself leaves \<open>client\<close>, \<open>clientCloser\<close> and \<open>counter\<close> as they were, so the shared
  variables change only after a build that succeeded.
\<close>

theorem reconnect_swaps_on_success_only:
  "(newClient net addrs configs s = (Inr (nClient, nClientCloser), s1) \<longrightarrow>
      reconnect net addrs configs s
        = (Inr nClient, s1\<lparr>client := nClient, clientCloser := Some nClientCloser\<rparr>)
      \<and> nClient \<noteq> None
      \<and> client s1 = client s \<and> clientCloser s1 = clientCloser s \<and> counter s1 = counter s)
   \<and> (newClient net addrs configs s = (Inl e, s1) \<longrightarrow>
      reconnect net addrs configs s = (Inl e, s1)
      \<and> client s1 = client s \<and> clientCloser s1 = clientCloser s \<and> counter s1 = counter s)"
  by (auto simp: reconnect_def dest: newClient_frame newClient_Inr(1))

theorem reconnect_swaps_on_success_only_witness:
  "client (snd (reconnect netInnerDown [''gate:22''] [key] worldStale)) = Some 1
   \<and> clientCloser (snd (reconnect netInnerDown [''gate:22''] [key] worldStale))
       = Some \<lparr>clients = [1]\<rparr>
   \<and> fst (reconnect netInnerDown [''gate:22''] [key] worldStale) = Inr (Some 1)
   \<and> client (snd (reconnect netDown [''gate:22''] [key] worldStale)) = Some 0
   \<and> clientCloser (snd (reconnect netDown [''gate:22''] [key] worldStale))
       = Some \<lparr>clients = [0]\<rparr>
   \<and> fst (reconnect netDown [''gate:22''] [key] worldStale) = Inl ''dial tcp: i/o timeout''"
proof -
  let ?ok = "newClient netInnerDown [''gate:22''] [key] worldStale"
  let ?ko = "newClient netDown [''gate:22''] [key] worldStale"
  have "fst ?ok = Inr (Some 1, \<lparr>clients = [1]\<rparr>)"
    by (simp add: newClient_def connectHop_def emit_def netInnerDown_def worldStale_def Let_def)
  then have ok: "?ok = (Inr (Some 1, \<lparr>clients = [1]\<rparr>), snd ?ok)"
    by (metis prod.collapse)
  have "fst ?ko = Inl ''dial tcp: i/o timeout''"
    by (simp add: newClient_def connectHop_def emit_def netDown_def worldStale_def Let_def
        sshCleanup_Close_def)
  then have ko: "?ko = (Inl ''dial tcp: i/o timeout'', snd ?ko)"
    by (metis prod.collapse)
  have w: "client worldStale = Some 0" "clientCloser worldStale = Some \<lparr>clients = [0]\<rparr>"
    by (simp_all add: worldStale_def)
  from reconnect_swaps_on_success_only
         [of netInnerDown "[''gate:22'']" "[key]" worldStale "Some 1" "\<lparr>clients = [1]\<rparr>" "snd ?ok"]
       reconnect_swaps_on_success_only
         [of netDown "[''gate:22'']" "[key]" worldStale _ _ "snd ?ko" "''dial tcp: i/o timeout''"]
       ok ko w
  show ?thesis by simp
qed

text \<open>
  C4. When \<open>connect\<close> finds the current client not alive and the build that follows
  fails with \<open>e\<close>, it returns \<open>e\<close> with \<open>client\<close> and \<open>clientCloser\<close> both \<open>nil\<close>. The next
  \<open>connect\<close>, on any network and any hops, then sends no probe: it is the build from
  that state, with its result stored.
\<close>

theorem connect_failed_build_clears:
  assumes alive: "clientAlive net (client s) (clientCloser s) s = (Returns False, s1)"
    and build: "newClient net addrs configs s1 = (Inl e, s2)"
  shows "connect net addrs configs s
           = (Returns (Inl e), s2\<lparr>client := None, clientCloser := None\<rparr>)
         \<and> connect net' addrs' configs' (s2\<lparr>client := None, clientCloser := None\<rparr>)
           = (case newClient net' addrs' configs' (s2\<lparr>client := None, clientCloser := None\<rparr>) of
                (Inl e', t) \<Rightarrow> (Returns (Inl e'), t\<lparr>client := None, clientCloser := None\<rparr>)
              | (Inr (cl, c), t) \<Rightarrow>
                  (Returns (Inr cl), t\<lparr>client := cl, clientCloser := Some c\<rparr>))"
proof
  show "connect net addrs configs s
          = (Returns (Inl e), s2\<lparr>client := None, clientCloser := None\<rparr>)"
    by (simp add: connect_def alive build)
  show "connect net' addrs' configs' (s2\<lparr>client := None, clientCloser := None\<rparr>)
           = (case newClient net' addrs' configs' (s2\<lparr>client := None, clientCloser := None\<rparr>) of
                (Inl e', t) \<Rightarrow> (Returns (Inl e'), t\<lparr>client := None, clientCloser := None\<rparr>)
              | (Inr (cl, c), t) \<Rightarrow>
                  (Returns (Inr cl), t\<lparr>client := cl, clientCloser := Some c\<rparr>))"
    by (simp add: connect_def clientAlive_def)
qed

theorem connect_failed_build_clears_witness:
  "fst (connect netDown [''gate:22''] [key] worldStale) = Returns (Inl ''dial tcp: i/o timeout'')
   \<and> client (snd (connect netDown [''gate:22''] [key] worldStale)) = None
   \<and> clientCloser (snd (connect netDown [''gate:22''] [key] worldStale)) = None"
proof -
  let ?al = "clientAlive netDown (client worldStale) (clientCloser worldStale) worldStale"
  let ?nc = "newClient netDown [''gate:22''] [key] (snd ?al)"
  have "fst ?al = Returns False"
    by (simp add: clientAlive_def netDown_def worldStale_def sshCleanup_Close_def emit_def Let_def)
  then have al: "?al = (Returns False, snd ?al)"
    by (metis prod.collapse)
  have "fst ?nc = Inl ''dial tcp: i/o timeout''"
    by (simp add: newClient_def connectHop_def netDown_def sshCleanup_Close_def emit_def Let_def)
  then have nc: "?nc = (Inl ''dial tcp: i/o timeout'', snd ?nc)"
    by (metis prod.collapse)
  from connect_failed_build_clears [OF al nc] show ?thesis by simp
qed

section \<open>The liveness probe\<close>

text \<open>
  C5, as the code has it. On a \<open>nil\<close> client \<open>clientAlive\<close> returns \<open>false\<close> at once: no
  probe, no close, the state is unchanged. On a client that is not \<open>nil\<close>, whenever it
  returns \<open>false\<close> there is a closer and, after the probe and the line
  \<open>Client connection is not responding, closing\<close>, \<open>Close\<close> has been called on every
  client of the closer, last one first; only log lines follow.
\<close>

theorem clientAlive_false_closes:
  "clientAlive net None cleanup s = (Returns False, s)
   \<and> (clientAlive net (Some p) cleanup s = (Returns False, s') \<longrightarrow>
        (\<exists>c lines. cleanup = Some c
           \<and> trace s' = trace s @ SendRequest p
                          # Log ''Client connection is not responding, closing''
                          # map ClientClose (rev (clients c)) @ map Log lines
           \<and> closes (trace s') = closes (trace s) @ rev (clients c)))"
proof
  show "clientAlive net None cleanup s = (Returns False, s)"
    by (simp add: clientAlive_def)
  show "clientAlive net (Some p) cleanup s = (Returns False, s') \<longrightarrow>
        (\<exists>c lines. cleanup = Some c
           \<and> trace s' = trace s @ SendRequest p
                          # Log ''Client connection is not responding, closing''
                          # map ClientClose (rev (clients c)) @ map Log lines
           \<and> closes (trace s') = closes (trace s) @ rev (clients c))"
  proof
    assume run: "clientAlive net (Some p) cleanup s = (Returns False, s')"
    let ?s2 = "emit (Log ''Client connection is not responding, closing'') (emit (SendRequest p) s)"
    from run obtain c where c: "cleanup = Some c"
      by (cases cleanup) (auto simp: clientAlive_def Let_def split: option.splits)
    obtain r s3 where cl: "sshCleanup_Close net c ?s2 = (r, s3)" by fastforce
    have tr3: "trace s3 = trace s @ SendRequest p
                 # Log ''Client connection is not responding, closing''
                 # map ClientClose (rev (clients c))"
      using sshCleanup_Close_trace [of net c ?s2] cl by simp
    from run c cl have "s' = s3 \<or> (\<exists>ce. s' = emit (Log (''Failed to close client connection: '' @ ce)) s3)"
      by (auto simp: clientAlive_def Let_def split: option.splits)
    then have "\<exists>lines. trace s' = trace s3 @ map Log lines"
    proof
      assume "s' = s3"
      then have "trace s' = trace s3 @ map Log []" by simp
      then show ?thesis by blast
    next
      assume "\<exists>ce. s' = emit (Log (''Failed to close client connection: '' @ ce)) s3"
      then obtain ce where "s' = emit (Log (''Failed to close client connection: '' @ ce)) s3" ..
      then have "trace s' = trace s3 @ map Log [''Failed to close client connection: '' @ ce]"
        by simp
      then show ?thesis by blast
    qed
    then obtain lines where tr: "trace s' = trace s3 @ map Log lines" ..
    have cs: "closes (map Log lines) = []" by (induction lines) simp_all
    have "closes (trace s') = closes (trace s) @ rev (clients c)"
      by (simp add: tr tr3 cs)
    with c tr tr3 show "\<exists>c lines. cleanup = Some c
           \<and> trace s' = trace s @ SendRequest p
                          # Log ''Client connection is not responding, closing''
                          # map ClientClose (rev (clients c)) @ map Log lines
           \<and> closes (trace s') = closes (trace s) @ rev (clients c)"
      by auto
  qed
qed

theorem clientAlive_false_closes_witness:
  "fst (clientAlive netDown (Some 0) (Some \<lparr>clients = [0]\<rparr>) worldStale) = Returns False
   \<and> closes (trace (snd (clientAlive netDown (Some 0) (Some \<lparr>clients = [0]\<rparr>) worldStale))) = [0]"
proof -
  let ?al = "clientAlive netDown (Some 0) (Some \<lparr>clients = [0]\<rparr>) worldStale"
  have f: "fst ?al = Returns False"
    by (simp add: clientAlive_def netDown_def worldStale_def sshCleanup_Close_def emit_def Let_def)
  then have al: "?al = (Returns False, snd ?al)"
    by (metis prod.collapse)
  have t: "trace worldStale = []" by (simp add: worldStale_def)
  from clientAlive_false_closes [of netDown "Some \<lparr>clients = [0]\<rparr>" worldStale 0 "snd ?al"] al f t
  show ?thesis by auto
qed

text \<open>
  C5 as written includes the \<open>nil\<close> client. Called with a \<open>nil\<close> client and the closer of
  client \<open>0\<close>, \<open>clientAlive\<close> returns \<open>false\<close> and has closed nothing; called with the
  package variables of a process that has just started, both \<open>nil\<close>, it returns
  \<open>false\<close> and no event has happened.
\<close>

theorem clientAlive_nil_counterexample:
  "clientAlive netDown None (Some \<lparr>clients = [0]\<rparr>) (worldStale\<lparr>client := None\<rparr>)
     = (Returns False, worldStale\<lparr>client := None\<rparr>)
   \<and> closes (trace (snd (clientAlive netDown None (Some \<lparr>clients = [0]\<rparr>)
                            (worldStale\<lparr>client := None\<rparr>)))) = []
   \<and> clientAlive netDown (client world0) (clientCloser world0) world0 = (Returns False, world0)
   \<and> trace world0 = []"
  by (simp add: clientAlive_def worldStale_def world0_def)

section \<open>Parsing a host entry\<close>

lemma strings_Contains_char: "strings_Contains s [c] \<longleftrightarrow> c \<in> set s"
  by (induction s) auto

text \<open>
  C9, as the code has it. An entry that \<open>splitSingleHost\<close> parses is a user without
  \<open>@\<close>, the first \<open>@\<close>, and the address part. The address returned is the address part
  followed by \<open>:22\<close> when the address part contains no \<open>:\<close>, and the address part
  unchanged when it contains a \<open>:\<close>.
\<close>

theorem splitSingleHost_default_port:
  "CHR ''@'' \<notin> set user \<Longrightarrow>
     splitSingleHost (user @ CHR ''@'' # rest)
       = Inr (user, if CHR '':'' \<in> set rest then rest else rest @ '':22'')"
proof -
  assume u: "CHR ''@'' \<notin> set user"
  have t: "takeWhile (\<lambda>c. c \<noteq> CHR ''@'') (user @ CHR ''@'' # rest) = user"
    using u by (induction user) auto
  have d: "dropWhile (\<lambda>c. c \<noteq> CHR ''@'') (user @ CHR ''@'' # rest) = CHR ''@'' # rest"
    using u by (induction user) auto
  show ?thesis
    unfolding splitSingleHost_def Let_def t d
    by (simp add: strings_Contains_char)
qed

theorem splitSingleHost_default_port_witness:
  "splitSingleHost ''alice@example.org'' = Inr (''alice'', ''example.org:22'')
   \<and> splitSingleHost ''bob@10.0.0.7:2222'' = Inr (''bob'', ''10.0.0.7:2222'')"
  using splitSingleHost_default_port [of "''alice''" "''example.org''"]
    splitSingleHost_default_port [of "''bob''" "''10.0.0.7:2222''"]
  by simp

text \<open>
  C9 as written gives every address without a port the port \<open>22\<close>. The address parts
  \<open>[::1]\<close> (an IPv6 literal) and \<open>host:\<close> have no port, but they contain a \<open>:\<close>:
  \<open>splitSingleHost\<close> returns them unchanged, without \<open>:22\<close>.
\<close>

theorem splitSingleHost_colon_counterexample:
  "splitSingleHost ''u@[::1]'' = Inr (''u'', ''[::1]'')
   \<and> splitSingleHost ''u@[::1]'' \<noteq> Inr (''u'', ''[::1]:22'')
   \<and> splitSingleHost ''u@host:'' = Inr (''u'', ''host:'')
   \<and> splitSingleHost ''u@host:'' \<noteq> Inr (''u'', ''host:22'')"
  by (simp add: splitSingleHost_def)

section \<open>The reconnect scheduler\<close>

lemma rebuilds_append [simp]: "rebuilds (xs @ ys) = rebuilds xs + rebuilds ys"
  by (induction xs rule: rebuilds.induct) simp_all

lemma scheduleReconnect_counter: "counter (scheduleReconnect addrs configs s) = counter s + 1"
  by (simp add: scheduleReconnect_def Let_def)

lemma scheduleReconnect_rebuilds:
  "rebuilds (trace (scheduleReconnect addrs configs s))
     = rebuilds (trace s) + (if (counter s + 1) mod 1000 = 0 then 1 else 0)"
  by (simp add: scheduleReconnect_def counterCycle_def Let_def)

lemma sessions_counter: "counter (sessions n addrs configs s) = counter s + of_nat n"
  by (induction n) (simp_all add: scheduleReconnect_counter)

lemma word64_mod_1000:
  assumes "n < 2 ^ 64"
  shows "((of_nat n :: 64 word) mod 1000 = 0) = (n mod 1000 = 0)"
proof -
  have u: "unat (of_nat n :: 64 word) = n"
    using assms by (simp add: unat_of_nat)
  have "((of_nat n :: 64 word) mod 1000 = 0) = (unat ((of_nat n :: 64 word) mod 1000) = 0)"
    by (simp add: unat_eq_0)
  also have "\<dots> = (n mod 1000 = 0)"
    by (simp add: unat_mod u)
  finally show ?thesis .
qed

lemma sessions_rebuilds:
  assumes "counter s = 0"
  shows "n < 2 ^ 64 \<Longrightarrow>
     rebuilds (trace (sessions n addrs configs s)) = rebuilds (trace s) + n div 1000"
proof (induction n)
  case 0
  then show ?case by simp
next
  case (Suc n)
  then have n: "n < 2 ^ 64" by simp
  have c: "counter (sessions n addrs configs s) + 1 = of_nat (Suc n)"
    by (simp add: sessions_counter assms)
  have d: "Suc n div 1000 = n div 1000 + (if Suc n mod 1000 = 0 then 1 else 0)"
    by (simp add: div_Suc)
  show ?case
    by (simp only: sessions.simps scheduleReconnect_rebuilds c word64_mod_1000 [OF Suc.prems]
        Suc.IH [OF n] d add.assoc)
qed

text \<open>
  C7, as the code has it. Start from a counter of \<open>0\<close> and call \<open>scheduleReconnect\<close>
  again and again, fewer than \<open>2 ^ 64\<close> times in all. Then call number \<open>n + 1\<close> starts
  exactly one rebuild when \<open>1000\<close> divides \<open>n + 1\<close> and none otherwise; after it,
  \<open>(n + 1) div 1000\<close> rebuilds have been started in all; and none has been started while
  \<open>n + 1 < 1000\<close>.
\<close>

theorem scheduleReconnect_cadence:
  assumes "counter s = 0" and "Suc n < 2 ^ 64"
  shows "rebuilds (trace (sessions (Suc n) addrs configs s))
           = rebuilds (trace (sessions n addrs configs s)) + (if 1000 dvd Suc n then 1 else 0)
         \<and> rebuilds (trace (sessions (Suc n) addrs configs s))
           = rebuilds (trace s) + Suc n div 1000
         \<and> (Suc n < 1000 \<longrightarrow> rebuilds (trace (sessions (Suc n) addrs configs s))
                                = rebuilds (trace s))"
proof -
  from assms(2) have n: "n < 2 ^ 64" by simp
  have d: "Suc n div 1000 = n div 1000 + (if 1000 dvd Suc n then 1 else 0)"
    by (simp add: div_Suc dvd_eq_mod_eq_0)
  have z: "Suc n < 1000 \<longrightarrow> Suc n div 1000 = 0"
    by simp
  have "rebuilds (trace (sessions (Suc n) addrs configs s))
          = rebuilds (trace (sessions n addrs configs s)) + (if 1000 dvd Suc n then 1 else 0)"
    by (simp only: sessions_rebuilds [OF assms(1) assms(2)] sessions_rebuilds [OF assms(1) n]
        d add.assoc)
  moreover have "rebuilds (trace (sessions (Suc n) addrs configs s))
                   = rebuilds (trace s) + Suc n div 1000"
    by (rule sessions_rebuilds [OF assms(1) assms(2)])
  moreover have "Suc n < 1000 \<longrightarrow>
      rebuilds (trace (sessions (Suc n) addrs configs s)) = rebuilds (trace s)"
    using z by (simp only: sessions_rebuilds [OF assms(1) assms(2)]) simp
  ultimately show ?thesis by blast
qed

theorem scheduleReconnect_cadence_witness:
  "rebuilds (trace (sessions (Suc 999) [''gate:22''] [key] world0))
     = rebuilds (trace (sessions 999 [''gate:22''] [key] world0)) + 1
   \<and> rebuilds (trace (sessions (Suc 999) [''gate:22''] [key] world0)) = 1"
proof -
  have c: "counter world0 = 0" and t: "trace world0 = []" by (simp_all add: world0_def)
  have b: "Suc 999 < (2::nat) ^ 64" by simp
  from scheduleReconnect_cadence [OF c b, of "[''gate:22'']" "[key]"] t
  show ?thesis by simp
qed

text \<open>
  C7 as written has no bound on the number of calls. The counter is a \<open>uint64\<close> and
  \<open>1000\<close> does not divide \<open>2 ^ 64\<close>: call number \<open>2 ^ 64 - 616\<close> starts a rebuild, and
  so does call number \<open>2 ^ 64\<close>, where the counter is \<open>0\<close> again. The \<open>617\<close> calls after
  call number \<open>2 ^ 64 - 617\<close> start two rebuilds.
\<close>

theorem scheduleReconnect_wrap_counterexample:
  "rebuilds (trace (sessions 18446744073709551616 [''gate:22''] [key] world0))
     = rebuilds (trace (sessions 18446744073709550999 [''gate:22''] [key] world0)) + 2"
proof -
  let ?f = "\<lambda>n. sessions n [''gate:22''] [key] world0"
  have c: "counter world0 = 0" and t: "trace world0 = []" by (simp_all add: world0_def)
  have a: "rebuilds (trace (?f 18446744073709550999)) = 18446744073709550"
    using sessions_rebuilds [OF c, of 18446744073709550999 "[''gate:22'']" "[key]"] t by simp
  have b: "rebuilds (trace (?f 18446744073709551615)) = 18446744073709551"
    using sessions_rebuilds [OF c, of 18446744073709551615 "[''gate:22'']" "[key]"] t by simp
  have w: "counter (?f 18446744073709551615) + 1 = 0"
    by (simp add: sessions_counter c)
  have s: "?f 18446744073709551616 = scheduleReconnect [''gate:22''] [key] (?f 18446744073709551615)"
  proof -
    have "(18446744073709551616::nat) = Suc 18446744073709551615" by simp
    then show ?thesis by (simp only: sessions.simps)
  qed
  have "rebuilds (trace (?f 18446744073709551616)) = 18446744073709551 + 1"
    by (simp only: s scheduleReconnect_rebuilds w b) simp
  with a show ?thesis by simp
qed

section \<open>How the trace grows\<close>

lemma grows_refl [simp]: "grows s s"
  by (simp add: grows_def)

lemma grows_trans: "grows s s1 \<Longrightarrow> grows s1 s2 \<Longrightarrow> grows s s2"
  by (fastforce simp: grows_def)

lemma grows_emit: "chainEvent ev \<Longrightarrow> grows s (emit ev s)"
  by (simp add: grows_def)

lemma grows_update [simp]:
  "grows s (s'\<lparr>client := x, clientCloser := y\<rparr>) = grows s s'"
  "grows s (s'\<lparr>fresh := n\<rparr>) = grows s s'"
  by (simp_all add: grows_def)

lemma grows_Close: "grows s (snd (sshCleanup_Close net c s))"
  by (simp add: grows_def sshCleanup_Close_trace list_all_iff)

lemma grows_connectHop: "connectHop net proxy a config s = (r, s') \<Longrightarrow> grows s s'"
  by (auto simp: connectHop_def Let_def grows_def split: option.splits prod.splits)

lemma grows_hopLoop: "hopLoop net hops proxy c s = (r, s') \<Longrightarrow> grows s s'"
proof (induction hops arbitrary: proxy c s)
  case Nil
  then show ?case by auto
next
  case (Cons h hops)
  obtain a config where h: "h = (a, config)" by (cases h)
  let ?s0 = "emit (Log (''Establishing new connection to '' @ a)) s"
  obtain r1 s2 where ch: "connectHop net proxy a config ?s0 = (r1, s2)" by fastforce
  have g2: "grows s s2"
    using grows_trans [OF grows_emit grows_connectHop [OF ch]] by simp
  show ?case
  proof (cases r1)
    case (Inl e)
    let ?s3 = "emit (Log (''Failed to connect to '' @ a @ '': '' @ e)) s2"
    from Inl Cons.prems ch h have "s' = snd (sshCleanup_Close net c ?s3)"
      by (auto simp: Let_def split: prod.splits)
    moreover have "grows s2 ?s3" by (simp add: grows_emit)
    with g2 have "grows s ?s3" by (rule grows_trans)
    then have "grows s (snd (sshCleanup_Close net c ?s3))"
      by (rule grows_trans) (rule grows_Close)
    ultimately show ?thesis by simp
  next
    case (Inr cl)
    with Cons.prems ch h
    have "hopLoop net hops (Some cl) (c\<lparr>clients := clients c @ [cl]\<rparr>) s2 = (r, s')"
      by (simp add: Let_def)
    from Cons.IH [OF this] g2 show ?thesis by (rule grows_trans [rotated])
  qed
qed

lemma grows_newClient: "newClient net addrs configs s = (r, s') \<Longrightarrow> grows s s'"
proof -
  assume run: "newClient net addrs configs s = (r, s')"
  obtain r1 s1 where loop: "hopLoop net (zip addrs configs) None \<lparr>clients = []\<rparr> s = (r1, s1)"
    by fastforce
  have g: "grows s s1" by (rule grows_hopLoop [OF loop])
  let ?s2 = "emit (Log (''Connected to final hop '' @ addrs ! (length addrs - 1))) s1"
  have "grows s1 ?s2" by (simp add: grows_emit)
  with g have g2: "grows s ?s2" by (rule grows_trans)
  from run loop have "s' = s \<or> s' = s1 \<or> s' = ?s2"
    by (auto simp: newClient_def split: if_splits sum.splits)
  then show ?thesis
  proof (elim disjE)
    assume "s' = s" then show ?thesis by simp
  next
    assume "s' = s1" then show ?thesis using g by simp
  next
    assume "s' = ?s2" then show ?thesis using g2 by simp
  qed
qed

lemma grows_clientAlive: "clientAlive net cl cleanup s = (r, s') \<Longrightarrow> grows s s'"
proof (cases cl)
  case None
  assume "clientAlive net cl cleanup s = (r, s')"
  with None show ?thesis by (simp add: clientAlive_def)
next
  case (Some p)
  assume run: "clientAlive net cl cleanup s = (r, s')"
  let ?s1 = "emit (SendRequest p) s"
  let ?s2 = "emit (Log ''Client connection is not responding, closing'') ?s1"
  have g1: "grows s ?s1" by (simp add: grows_emit)
  have g2: "grows s ?s2" using g1 by (rule grows_trans) (simp add: grows_emit)
  show ?thesis
  proof (cases "conn_SendRequest net (trace s) p")
    case None
    with run Some have "s' = ?s1" by (simp add: clientAlive_def Let_def)
    then show ?thesis using g1 by simp
  next
    case probe: (Some e)
    show ?thesis
    proof (cases cleanup)
      case None
      with run Some probe have "s' = ?s2" by (simp add: clientAlive_def Let_def)
      then show ?thesis using g2 by simp
    next
      case c: (Some c)
      let ?s3 = "snd (sshCleanup_Close net c ?s2)"
      have g3: "grows s ?s3" using g2 grows_Close by (rule grows_trans)
      from run Some probe c
      have "s' = ?s3 \<or> (\<exists>ce. s' = emit (Log (''Failed to close client connection: '' @ ce)) ?s3)"
        by (auto simp: clientAlive_def Let_def split: option.splits prod.splits)
      then show ?thesis
      proof
        assume "s' = ?s3" then show ?thesis using g3 by simp
      next
        assume "\<exists>ce. s' = emit (Log (''Failed to close client connection: '' @ ce)) ?s3"
        then obtain ce where s': "s' = emit (Log (''Failed to close client connection: '' @ ce)) ?s3" ..
        have "grows ?s3 s'" unfolding s' by (simp add: grows_emit)
        with g3 show ?thesis by (rule grows_trans)
      qed
    qed
  qed
qed

lemma grows_connect: "connect net addrs configs s = (r, s') \<Longrightarrow> grows s s'"
proof -
  assume run: "connect net addrs configs s = (r, s')"
  obtain b s1 where al: "clientAlive net (client s) (clientCloser s) s = (b, s1)" by fastforce
  note g1 = grows_clientAlive [OF al]
  obtain r2 s2 where nc: "newClient net addrs configs s1 = (r2, s2)" by fastforce
  note g2 = grows_trans [OF g1 grows_newClient [OF nc]]
  from run al nc have "s' = s1 \<or> (\<exists>x y. s' = s2\<lparr>client := x, clientCloser := y\<rparr>)"
    by (auto simp: connect_def split: outcome.splits bool.splits sum.splits prod.splits if_splits)
  then show ?thesis using g1 g2 by auto
qed

lemma grows_reconnect: "reconnect net addrs configs s = (r, s') \<Longrightarrow> grows s s'"
proof -
  assume run: "reconnect net addrs configs s = (r, s')"
  obtain r2 s2 where nc: "newClient net addrs configs s = (r2, s2)" by fastforce
  note g = grows_newClient [OF nc]
  from run nc have "s' = s2 \<or> (\<exists>x y. s' = s2\<lparr>client := x, clientCloser := y\<rparr>)"
    by (auto simp: reconnect_def split: sum.splits prod.splits)
  then show ?thesis using g by auto
qed

lemma destDials_append [simp]: "destDials (xs @ ys) = destDials xs @ destDials ys"
  by (induction xs rule: destDials.induct) simp_all

lemma destDials_chain: "list_all chainEvent evs \<Longrightarrow> destDials evs = []"
  by (induction evs rule: destDials.induct) simp_all

lemma grows_destDials: "grows s s' \<Longrightarrow> destDials (trace s') = destDials (trace s)"
  by (auto simp: grows_def destDials_chain)

lemma connect_Inr:
  assumes "connect net addrs configs s = (Returns (Inr h), s')"
  shows "\<exists>p. h = Some p \<and> client s' = Some p"
proof -
  obtain b s1 where al: "clientAlive net (client s) (clientCloser s) s = (b, s1)" by fastforce
  show ?thesis
  proof (cases "b = Returns True")
    case True
    with assms al have h: "h = client s1" and s': "s' = s1" by (auto simp: connect_def)
    from al True obtain p where "client s = Some p" and "s1 = emit (SendRequest p) s"
      by (cases "client s")
        (auto simp: clientAlive_def Let_def split: option.splits prod.splits)
    then show ?thesis using h s' by simp
  next
    case False
    with assms al obtain cl c s2 where nc: "newClient net addrs configs s1 = (Inr (cl, c), s2)"
      and h: "h = cl" and s': "s' = s2\<lparr>client := cl, clientCloser := Some c\<rparr>"
      by (auto simp: connect_def split: outcome.splits bool.splits sum.splits prod.splits)
    from newClient_Inr(1) [OF nc] h s' show ?thesis by simp
  qed
qed

lemma reconnect_Inr:
  assumes "reconnect net addrs configs s = (Inr h, s')"
  shows "\<exists>q. h = Some q \<and> client s' = Some q"
proof -
  from assms obtain cl c s2 where nc: "newClient net addrs configs s = (Inr (cl, c), s2)"
    and h: "h = cl" and s': "s' = s2\<lparr>client := cl, clientCloser := Some c\<rparr>"
    by (auto simp: reconnect_def split: sum.splits prod.splits)
  from newClient_Inr(1) [OF nc] h s' show ?thesis by simp
qed

section \<open>Properties of forwarding\<close>

text \<open>
  C2. Let \<open>connect\<close> return the client \<open>p\<close> and let the first \<open>client.Dial\<close> to
  \<open>remoteAddr\<close> fail. Then \<open>forward\<close> logs the failure and runs \<open>reconnect\<close> once, from
  the state reached. When that rebuild fails, the local connection is closed and the
  session ends: the destination was dialled once, through \<open>p\<close>. When it succeeds it
  returns the client \<open>q\<close> now stored in \<open>client\<close>, and the destination is dialled once
  more, through \<open>q\<close>: when this second dial fails, the failure is logged, the local
  connection is closed and the session ends; when it succeeds, the session goes on to
  copy. In both cases the destination was dialled twice, through \<open>p\<close> and then \<open>q\<close>.
\<close>

theorem forward_rebuilds_and_retries_once:
  assumes acquire: "connect net addrs configs s = (Returns (Inr (Some p)), s1)"
    and first: "client_Dial net (trace s1) p remoteAddr = Some e"
  shows "case reconnect net addrs configs
                (emit (Log (''Failed to dial '' @ remoteAddr @ '', attempting to reconnect: '' @ e))
                   (emit (DestDial p remoteAddr) s1)) of
           (Inl e2, s4) \<Rightarrow>
             forward net remoteAddr addrs configs s = (Dropped, emit ConnClose s4)
             \<and> destDials (trace (emit ConnClose s4)) = destDials (trace s1) @ [p]
         | (Inr h, s4) \<Rightarrow>
             (\<exists>q. h = Some q \<and> client s4 = Some q
                \<and> (case client_Dial net (trace s4) q remoteAddr of
                      Some e3 \<Rightarrow>
                        forward net remoteAddr addrs configs s
                          = (Dropped,
                             emit ConnClose
                               (emit (Log (''Failed to dial '' @ remoteAddr @ '' (final): '' @ e3))
                                  (emit (DestDial q remoteAddr) s4)))
                    | None \<Rightarrow>
                        forward net remoteAddr addrs configs s
                          = pump addrs q (emit (DestDial q remoteAddr) s4))
                \<and> destDials (trace (snd (forward net remoteAddr addrs configs s)))
                    = destDials (trace s1) @ [p, q])"
proof -
  let ?s3 = "emit (Log (''Failed to dial '' @ remoteAddr @ '', attempting to reconnect: '' @ e))
               (emit (DestDial p remoteAddr) s1)"
  obtain r s4 where rc: "reconnect net addrs configs ?s3 = (r, s4)" by fastforce
  have d1: "dialDest net p remoteAddr s1 = (Some e, emit (DestDial p remoteAddr) s1)"
    by (simp add: dialDest_def first)
  have dd: "destDials (trace s4) = destDials (trace s1) @ [p]"
    using grows_destDials [OF grows_reconnect [OF rc]] by simp
  show ?thesis
  proof (cases r)
    case (Inl e2)
    have "forward net remoteAddr addrs configs s = (Dropped, emit ConnClose s4)"
      using rc Inl by (simp add: forward_def acquire d1 Let_def)
    then show ?thesis using rc Inl dd by simp
  next
    case (Inr h)
    from reconnect_Inr [OF rc [unfolded Inr]] obtain q where h: "h = Some q"
      and q: "client s4 = Some q" by blast
    let ?s5 = "emit (DestDial q remoteAddr) s4"
    show ?thesis
    proof (cases "client_Dial net (trace s4) q remoteAddr")
      case None
      then have d2: "dialDest net q remoteAddr s4 = (None, ?s5)"
        by (simp add: dialDest_def)
      have f: "forward net remoteAddr addrs configs s = pump addrs q ?s5"
        using rc Inr h d2 by (simp add: forward_def acquire d1 Let_def)
      have "destDials (trace (snd (forward net remoteAddr addrs configs s)))
              = destDials (trace s1) @ [p, q]"
        by (simp add: f pump_def dd)
      with f None h q rc Inr show ?thesis by simp
    next
      case (Some e3)
      then have d2: "dialDest net q remoteAddr s4 = (Some e3, ?s5)"
        by (simp add: dialDest_def)
      have f: "forward net remoteAddr addrs configs s
                 = (Dropped, emit ConnClose
                      (emit (Log (''Failed to dial '' @ remoteAddr @ '' (final): '' @ e3)) ?s5))"
        using rc Inr h d2 by (simp add: forward_def acquire d1 Let_def)
      have "destDials (trace (snd (forward net remoteAddr addrs configs s)))
              = destDials (trace s1) @ [p, q]"
        by (simp add: f dd)
      with f Some h q rc Inr show ?thesis by simp
    qed
  qed
qed

theorem forward_rebuilds_and_retries_once_witness:
  "fst (forward netDestDown ''db:5432'' [''gate:22''] [key] world0) = Dropped
   \<and> destDials (trace (snd (forward netDestDown ''db:5432'' [''gate:22''] [key] world0))) = [0, 1]
   \<and> fst (forward netStaleChain ''db:5432'' [''gate:22''] [key] worldStale) = Forwarded 1
   \<and> destDials (trace (snd (forward netStaleChain ''db:5432'' [''gate:22''] [key] worldStale)))
       = [0, 1]
   \<and> fst (forward netGateGone ''db:5432'' [''gate:22''] [key] worldStale) = Dropped
   \<and> destDials (trace (snd (forward netGateGone ''db:5432'' [''gate:22''] [key] worldStale)))
       = [0]"
proof -
  let ?a = "connect netDestDown [''gate:22''] [key] world0"
  have "fst ?a = Returns (Inr (Some 0))"
    by (simp add: run_defs netDestDown_def world0_def)
  then have a: "?a = (Returns (Inr (Some 0)), snd ?a)" by (metis prod.collapse)
  have ta: "trace (snd ?a) = [Log ''Establishing new connection to gate:22'',
      NetDialTimeout ''gate:22'' 0, NewClientConn ''gate:22'' ''tunnel'',
      Log ''Connected to final hop gate:22'']"
    by (simp add: run_defs netDestDown_def world0_def key_def)
  have fa: "client_Dial netDestDown (trace (snd ?a)) 0 ''db:5432''
              = Some ''ssh: rejected: connect failed''"
    by (simp add: netDestDown_def)
  note A = forward_rebuilds_and_retries_once [OF a fa]
  let ?b = "connect netStaleChain [''gate:22''] [key] worldStale"
  have "fst ?b = Returns (Inr (Some 0))"
    by (simp add: run_defs netStaleChain_def worldStale_def)
  then have b: "?b = (Returns (Inr (Some 0)), snd ?b)" by (metis prod.collapse)
  have tb: "trace (snd ?b) = [SendRequest 0]"
    by (simp add: run_defs netStaleChain_def worldStale_def)
  have fb: "client_Dial netStaleChain (trace (snd ?b)) 0 ''db:5432'' = Some ''EOF''"
    by (simp add: netStaleChain_def)
  note B = forward_rebuilds_and_retries_once [OF b fb]
  let ?c = "connect netGateGone [''gate:22''] [key] worldStale"
  have "fst ?c = Returns (Inr (Some 0))"
    by (simp add: run_defs netGateGone_def worldStale_def)
  then have c: "?c = (Returns (Inr (Some 0)), snd ?c)" by (metis prod.collapse)
  have fc: "client_Dial netGateGone (trace (snd ?c)) 0 ''db:5432''
              = Some ''ssh: rejected: connect failed''"
    by (simp add: netGateGone_def)
  note C = forward_rebuilds_and_retries_once [OF c fc]
  have 1: "fst (forward netDestDown ''db:5432'' [''gate:22''] [key] world0) = Dropped
   \<and> destDials (trace (snd (forward netDestDown ''db:5432'' [''gate:22''] [key] world0))) = [0, 1]"
    using A by (simp add: run_defs netDestDown_def world0_def key_def)
  have 2: "fst (forward netStaleChain ''db:5432'' [''gate:22''] [key] worldStale) = Forwarded 1
   \<and> destDials (trace (snd (forward netStaleChain ''db:5432'' [''gate:22''] [key] worldStale)))
       = [0, 1]"
    using B by (simp add: run_defs pump_def netStaleChain_def worldStale_def key_def)
  have 3: "fst (forward netGateGone ''db:5432'' [''gate:22''] [key] worldStale) = Dropped
   \<and> destDials (trace (snd (forward netGateGone ''db:5432'' [''gate:22''] [key] worldStale)))
       = [0]"
    using C by (simp add: run_defs netGateGone_def worldStale_def key_def)
  from 1 2 3 show ?thesis by blast
qed







end
